theory Spec2Isabelle
  imports Main "HOL-Library.Word"
begin

unbundle bit_operations_syntax

section \<open>The worker pool of \<open>common/thread_pool.h\<close>\<close>

text \<open>
  The class \<open>ThreadPool\<close> owns a vector of worker threads, a queue of type-erased tasks
  guarded by \<open>queue_mutex\<close>, and the flag \<open>stop\<close>. Every access to the queue and every
  write of the flag happens inside a critical section of \<open>queue_mutex\<close>, so each critical
  section is one atomic step of the model and a run of the program is an interleaving of
  such steps.

  A submitted callable, bound to its arguments, is represented by what invoking it does:
  it returns a value or it throws (a callable that never returns is outside the model: its
  worker would stay in the running state). \<open>std::packaged_task\<close> stores either one in the shared
  state that the \<open>std::future\<close> returned by \<open>Enqueue\<close> reads. The shared states live
  on the heap, outside the pool object; the model keeps them in the list \<open>futures\<close>, a
  store indexed by the handle that \<open>Enqueue\<close> returns (\<open>None\<close>: not ready yet).
\<close>

datatype exception = runtime_error string | bad_alloc | thrown string

datatype 'r outcome = Returns 'r | Throws exception

datatype 'r task = Task (handle: nat) (callable: "'r outcome")

text \<open>
  A worker thread is at one of three places of its lambda: blocked on (or about to enter)
  \<open>condition.wait\<close> at the top of the loop, running a claimed task outside the lock, or
  returned from the lambda.
\<close>

datatype 'r worker = Waiting | Running "'r task" | Exited

record 'r pool =
  workers :: "'r worker list"
  tasks :: "'r task list"
  stop :: bool
  futures :: "'r outcome option list"

text \<open>
  The constructor starts \<open>num_threads\<close> threads, for \<open>i\<close> from 0 below \<open>num_threads\<close>;
  it checks nothing about \<open>num_threads\<close>. \<open>ThreadPool num_threads\<close> is the pool as the
  constructor leaves it when it returns; where \<open>emplace_back\<close> cannot start a thread it
  throws, and no pool is constructed. (On Android each thread first pins itself to the big
  cores, which does not touch the pool.)
\<close>

definition ThreadPool :: "nat \<Rightarrow> 'r pool" where
  "ThreadPool num_threads =
     \<lparr>workers = replicate num_threads Waiting, tasks = [], stop = False, futures = []\<rparr>"

definition GetThreadCount :: "'r pool \<Rightarrow> nat" where
  "GetThreadCount p = length (workers p)"

text \<open>
  \<open>Enqueue\<close> builds the packaged task and its future, then, under the lock, throws if
  \<open>stop\<close> is set and appends the task otherwise. The throw destroys the packaged task
  and the future with it, so the failing call leaves nothing behind. The result is the
  exception or the handle of the future, with the pool after the call.
\<close>

definition Enqueue :: "'r outcome \<Rightarrow> 'r pool \<Rightarrow> (exception + nat) \<times> 'r pool" where
  "Enqueue f p =
     (if stop p then (Inl (runtime_error ''Enqueue on stopped ThreadPool''), p)
      else (Inr (length (futures p)),
            p\<lparr>tasks := tasks p @ [Task (length (futures p)) f],
              futures := futures p @ [None]\<rparr>))"


text \<open>
  One turn of worker \<open>w\<close>. A waiting worker whose predicate \<open>stop || !tasks.empty()\<close> is
  false stays blocked; with \<open>stop\<close> set and the queue empty it returns; otherwise it moves
  the front task out of the queue and releases the lock. A running worker completes
  \<open>task()\<close>: the packaged task stores the callable's value or exception in its shared
  state, and the worker is back at the top of the loop. The notifications of \<open>condition\<close>
  only wake waiting workers up; a woken worker evaluates its predicate under the lock, which
  is what a turn of a waiting worker does. A turn for a number that is no worker's does
  nothing.
\<close>

definition worker_loop :: "nat \<Rightarrow> 'r pool \<Rightarrow> 'r pool" where
  "worker_loop w p =
     (if w < length (workers p) then
        (case workers p ! w of
           Waiting \<Rightarrow>
             if \<not> (stop p \<or> tasks p \<noteq> []) then p
             else if stop p \<and> tasks p = [] then p\<lparr>workers := (workers p)[w := Exited]\<rparr>
             else p\<lparr>workers := (workers p)[w := Running (hd (tasks p))],
                    tasks := tl (tasks p)\<rparr>
         | Running t \<Rightarrow>
             p\<lparr>workers := (workers p)[w := Waiting],
               futures := (futures p)[handle t := Some (callable t)]\<rparr>
         | Exited \<Rightarrow> p)
      else p)"

text \<open>
  The steps other threads can take on a pool: a submission (whose result goes to the
  submitter), a turn of a worker, and the first critical section of the destructor.
\<close>

datatype 'r event = Submit "'r outcome" | Work nat | Stop

fun fire :: "'r event \<Rightarrow> 'r pool \<Rightarrow> 'r pool" where
  "fire (Submit f) p = snd (Enqueue f p)"
| "fire (Work w) p = worker_loop w p"
| "fire Stop p = p\<lparr>stop := True\<rparr>"

definition run :: "'r event list \<Rightarrow> 'r pool \<Rightarrow> 'r pool" where
  "run es p = fold fire es p"

text \<open>
  What a step does to the queue, read off the queue before and after it: the tasks it
  took out and the tasks it put in. Along a run they give the order in which tasks were
  claimed by workers and the order in which submissions were accepted.
\<close>

definition dequeued :: "'r event \<Rightarrow> 'r pool \<Rightarrow> 'r task list" where
  "dequeued e p = filter (\<lambda>t. t \<notin> set (tasks (fire e p))) (tasks p)"

definition enqueued :: "'r event \<Rightarrow> 'r pool \<Rightarrow> 'r task list" where
  "enqueued e p = filter (\<lambda>t. t \<notin> set (tasks p)) (tasks (fire e p))"

fun claim_order :: "'r event list \<Rightarrow> 'r pool \<Rightarrow> 'r task list" where
  "claim_order [] p = []"
| "claim_order (e # es) p = dequeued e p @ claim_order es (fire e p)"

fun accept_order :: "'r event list \<Rightarrow> 'r pool \<Rightarrow> 'r task list" where
  "accept_order [] p = []"
| "accept_order (e # es) p = enqueued e p @ accept_order es (fire e p)"

text \<open>
  A thread that spins or blocks is scheduled against the others: a schedule is a list of
  bursts, the steps that the other threads take before this thread next gets the lock or
  is next woken up (an empty burst: at once). A schedule that ends before the thread is
  through leaves it waiting, the result \<open>None\<close>.

  \<open>WaitForTasks\<close> takes the lock, leaves the loop if the queue is empty, and otherwise
  unlocks, yields and tries again.
\<close>

fun WaitForTasks ::
  "'r event list list \<Rightarrow> 'r pool \<Rightarrow> ('r event list list \<times> 'r pool) option" where
  "WaitForTasks [] p = None"
| "WaitForTasks (es # ess) p =
     (let p' = run es p in
      if tasks p' = [] then Some (ess, p') else WaitForTasks ess p')"

text \<open>
  \<open>worker.join()\<close> returns once the thread of worker \<open>w\<close> has returned from its lambda.
\<close>

fun join :: "nat \<Rightarrow> 'r event list list \<Rightarrow> 'r pool \<Rightarrow> ('r event list list \<times> 'r pool) option" where
  "join w [] p = None"
| "join w (es # ess) p =
     (let p' = run es p in
      if workers p' ! w = Exited then Some (ess, p') else join w ess p')"

text \<open>
  The destructor sets \<open>stop\<close> under the lock, notifies all workers, and joins the workers
  in the order of the vector. Every thread of the vector is joinable: nothing else joins
  or detaches one.
\<close>

fun join_workers ::
  "nat list \<Rightarrow> 'r event list list \<Rightarrow> 'r pool \<Rightarrow> ('r event list list \<times> 'r pool) option" where
  "join_workers [] ess p = Some (ess, p)"
| "join_workers (w # ws) ess p =
     (case join w ess p of
        None \<Rightarrow> None
      | Some (ess', p') \<Rightarrow> join_workers ws ess' p')"

definition ThreadPool_destructor ::
  "'r event list list \<Rightarrow> 'r pool \<Rightarrow> ('r event list list \<times> 'r pool) option" where
  "ThreadPool_destructor ess p =
     join_workers [0 ..< length (workers p)] ess (fire Stop p)"

text \<open>
  What holds of every pool that can be reached from a constructed one. The queued tasks
  have distinct handles; the handle of every queued or running task is that of an
  allocated shared state; a worker that has returned saw \<open>stop\<close> set and the queue empty;
  and every shared state that is not ready belongs to a task that is queued or running.
\<close>

definition queue_ok :: "'r pool \<Rightarrow> bool" where
  "queue_ok p \<longleftrightarrow>
     distinct (map handle (tasks p)) \<and>
     (\<forall>t \<in> set (tasks p). handle t < length (futures p))"



text \<open>
  A bound on the turns a worker still needs, once \<open>stop\<close> is set and no other thread
  interferes, before it has returned: two turns per queued task, claiming and completing,
  and the turns to complete a running task and to return.
\<close>

definition turns_left :: "nat \<Rightarrow> 'r pool \<Rightarrow> nat" where
  "turns_left w p =
     (case workers p ! w of
        Exited \<Rightarrow> 0
      | Waiting \<Rightarrow> 2 * length (tasks p) + 1
      | Running t \<Rightarrow> 2 * length (tasks p) + 2)"

subsection \<open>The process-wide pool of \<open>common/thread_pool.cpp\<close>\<close>

text \<open>
  \<open>g_thread_pool\<close> is a \<open>std::unique_ptr<ThreadPool>\<close>, null or owning the one pool. The
  three functions run under \<open>g_pool_mutex\<close>, so each is one step on the value of the
  pointer. \<open>GetThreadPool\<close> returns the pool it refers to besides the pointer;
  \<open>reset()\<close> in \<open>ShutdownThreadPool\<close> runs the destructor of the pool before the pointer
  is null.
\<close>

definition InitializeThreadPool :: "nat \<Rightarrow> 'r pool option \<Rightarrow> 'r pool option" where
  "InitializeThreadPool num_threads g_thread_pool =
     (case g_thread_pool of
        None \<Rightarrow> Some (ThreadPool num_threads)
      | Some p \<Rightarrow> Some p)"

definition GetThreadPool :: "'r pool option \<Rightarrow> 'r pool \<times> 'r pool option" where
  "GetThreadPool g_thread_pool =
     (case g_thread_pool of
        None \<Rightarrow> (ThreadPool 3, Some (ThreadPool 3))
      | Some p \<Rightarrow> (p, Some p))"

definition ShutdownThreadPool ::
  "'r event list list \<Rightarrow> 'r pool option \<Rightarrow> ('r event list list \<times> 'r pool option) option" where
  "ShutdownThreadPool ess g_thread_pool =
     (case g_thread_pool of
        None \<Rightarrow> Some (ess, None)
      | Some p \<Rightarrow>
          (case ThreadPool_destructor ess p of
             None \<Rightarrow> None
           | Some (ess', p') \<Rightarrow> Some (ess', None)))"

section \<open>Core affinity, \<open>common/cpu_affinity.cpp\<close>\<close>

text \<open>
  A \<open>cpu_set_t\<close> is a bit mask of \<open>CPU_SETSIZE\<close> bits, here a word of that length;
  \<open>CPU_ZERO\<close> clears it and \<open>CPU_SET(i, &cpuset)\<close> sets bit \<open>i\<close> when \<open>i\<close> is below
  \<open>CPU_SETSIZE\<close> and does nothing otherwise. The functions exist on Android builds
  only; on every other build the header defines them as empty inline functions.

  \<open>ResetCoreAffinity\<close> asks \<open>sysconf(_SC_NPROCESSORS_CONF)\<close> for the number of
  configured processors (the argument \<open>num_cores\<close>, an \<open>int\<close>), sets the bits below it,
  and passes the mask to \<open>sched_setaffinity\<close> for the calling thread. The system call
  is the system's part: \<open>allowed\<close> is the set of CPUs available to the process at the time
  of the call (online, and permitted to it), and \<open>result\<close> is what the call returns. When
  it returns 0, the thread's affinity mask has become the requested CPUs that are among
  the available ones; when it returns anything else, the request was refused and the
  thread's mask is as before. The function returns nothing; the model returns the thread's
  mask after the call and the level of the message logged.
\<close>

datatype build = Android | Other_platform

datatype log_level = Log_warning | Log_info | Log_debug

definition CPU_SET :: "nat \<Rightarrow> 'a::len word \<Rightarrow> 'a word" where
  "CPU_SET i cpuset = (if i < LENGTH('a) then set_bit i cpuset else cpuset)"

definition sched_setaffinity :: "int \<Rightarrow> 'a::len word \<Rightarrow> 'a word \<Rightarrow> 'a word \<Rightarrow> 'a word" where
  "sched_setaffinity result allowed cpuset affinity =
     (if result = 0 then cpuset AND allowed else affinity)"

definition ResetCoreAffinity ::
  "build \<Rightarrow> int \<Rightarrow> int \<Rightarrow> 'a::len word \<Rightarrow> 'a word \<Rightarrow> 'a word \<times> log_level option" where
  "ResetCoreAffinity platform num_cores result allowed affinity =
     (case platform of
        Other_platform \<Rightarrow> (affinity, None)
      | Android \<Rightarrow>
          (let cpuset = fold CPU_SET [0 ..< nat num_cores] 0;
               affinity' = sched_setaffinity result allowed cpuset affinity
           in if result \<noteq> 0 then (affinity', Some Log_warning)
              else (affinity', Some Log_debug)))"

section \<open>Aligned allocation, \<open>common/aligned_allocator.h\<close>\<close>

text \<open>
  \<open>size_t\<close> is an unsigned machine word, so \<open>size + alignment - 1\<close> wraps around. The
  platform's allocator (\<open>_aligned_malloc\<close>, \<open>aligned_alloc\<close> or \<open>posix_memalign\<close>) is the
  argument \<open>allocator\<close>, called with the alignment and the rounded size; a null pointer
  is \<open>None\<close>, and \<open>AlignedAlloc\<close> throws \<open>std::bad_alloc\<close> on it.
\<close>

definition aligned_size :: "'a::len word \<Rightarrow> 'a word \<Rightarrow> 'a word" where
  "aligned_size sz alignment = (sz + alignment - 1) AND NOT (alignment - 1)"

definition AlignedAlloc ::
  "('a::len word \<Rightarrow> 'a word \<Rightarrow> 'p option) \<Rightarrow> 'a word \<Rightarrow> 'a word \<Rightarrow> exception + 'p" where
  "AlignedAlloc allocator sz alignment =
     (case allocator alignment (aligned_size sz alignment) of
        None \<Rightarrow> Inl bad_alloc
      | Some ptr \<Rightarrow> Inr ptr)"

section \<open>Properties of the worker pool\<close>

lemma run_Nil: "run [] p = p"
  by (simp add: run_def)

lemma run_Cons: "run (e # es) p = run es (fire e p)"
  by (simp add: run_def)

lemma run_append: "run (es @ es') p = run es' (run es p)"
  by (simp add: run_def)

lemma fire_stop: "stop p \<Longrightarrow> stop (fire e p)"
  by (cases e) (auto simp: Enqueue_def worker_loop_def split: worker.splits)

lemma run_stop: "stop p \<Longrightarrow> stop (run es p)"
  by (induction es arbitrary: p) (simp_all add: run_Nil run_Cons fire_stop)

text \<open>
  Claim C1. Once the stop flag is set it stays set, and every later call of \<open>Enqueue\<close>,
  after any further steps of the workers and of other threads, throws
  \<open>std::runtime_error("Enqueue on stopped ThreadPool")\<close> and leaves the pool as it was:
  the queue, the workers and the shared states are unchanged, so nothing was appended. The
  rest of the run is the one without the call, so no worker ever runs the rejected task.
\<close>

theorem Enqueue_after_stop:
  "stop p \<Longrightarrow>
   Enqueue f (run es p) =
     (Inl (runtime_error ''Enqueue on stopped ThreadPool''), run es p) \<and>
   run (es @ Submit f # es') p = run (es @ es') p"
  by (simp add: Enqueue_def run_stop run_append run_Cons)

theorem Enqueue_after_stop_witness:
  "stop (fire Stop (run [Submit (Returns 1)] (ThreadPool 2 :: int pool))) \<and>
   Enqueue (Returns 7) (run [Work 0] (fire Stop (run [Submit (Returns 1)] (ThreadPool 2)))) =
     (Inl (runtime_error ''Enqueue on stopped ThreadPool''),
      \<lparr>workers = [Running (Task 0 (Returns 1)), Waiting], tasks = [], stop = True,
       futures = [None]\<rparr>) \<and>
   run ([Work 0] @ Submit (Returns 7) # [Work 0, Work 0, Work 1])
       (fire Stop (run [Submit (Returns 1)] (ThreadPool 2))) =
     \<lparr>workers = [Exited, Exited], tasks = [], stop = True, futures = [Some (Returns 1)]\<rparr>"
  using Enqueue_after_stop [of "fire Stop (run [Submit (Returns 1)] (ThreadPool 2 :: int pool))"
      "Returns 7" "[Work 0]" "[Work 0, Work 0, Work 1]"]
  by (simp add: ThreadPool_def run_def Enqueue_def worker_loop_def numeral_2_eq_2)

lemma length_workers_fire: "length (workers (fire e p)) = length (workers p)"
  by (cases e) (auto simp: Enqueue_def worker_loop_def split: worker.splits)

lemma length_workers_run: "length (workers (run es p)) = length (workers p)"
  by (induction es arbitrary: p) (simp_all add: run_Nil run_Cons length_workers_fire)

text \<open>
  Claim C5, as the code has it. No thread count is rejected and none is clamped: a pool
  constructed with the count \<open>n\<close>, 0 included, has exactly \<open>n\<close> workers, at construction
  and after any steps.
\<close>

theorem ThreadPool_thread_count: "GetThreadCount (run es (ThreadPool n)) = n"
  by (simp add: GetThreadCount_def length_workers_run) (simp add: ThreadPool_def)

text \<open>The claim as stated fails: the pool constructed with 0 threads has no worker.\<close>

theorem ThreadPool_zero_threads: "\<not> 1 \<le> GetThreadCount (ThreadPool 0 :: int pool)"
  by (simp add: GetThreadCount_def ThreadPool_def)

lemma fire_cases [case_names rejected accepted idle claim exit finish begin_stop]:
  obtains
    (rejected) f where "e = Submit f" "stop p" "fire e p = p"
  | (accepted) f where "e = Submit f" "\<not> stop p"
      "fire e p = p\<lparr>tasks := tasks p @ [Task (length (futures p)) f],
                     futures := futures p @ [None]\<rparr>"
  | (idle) "fire e p = p"
  | (claim) w t ts where "e = Work w" "w < length (workers p)" "workers p ! w = Waiting"
      "tasks p = t # ts"
      "fire e p = p\<lparr>workers := (workers p)[w := Running t], tasks := ts\<rparr>"
  | (exit) w where "e = Work w" "w < length (workers p)" "workers p ! w = Waiting"
      "stop p" "tasks p = []"
      "fire e p = p\<lparr>workers := (workers p)[w := Exited]\<rparr>"
  | (finish) w t where "e = Work w" "w < length (workers p)" "workers p ! w = Running t"
      "fire e p = p\<lparr>workers := (workers p)[w := Waiting],
                     futures := (futures p)[handle t := Some (callable t)]\<rparr>"
  | (begin_stop) "e = Stop" "fire e p = p\<lparr>stop := True\<rparr>"
proof (cases e)
  case (Submit f)
  then show ?thesis
    using rejected [of f] accepted [of f] by (cases "stop p") (simp_all add: Enqueue_def)
next
  case (Work w)
  show ?thesis
  proof (cases "w < length (workers p)")
    case False
    with Work show ?thesis using idle by (simp add: worker_loop_def)
  next
    case True
    show ?thesis
    proof (cases "workers p ! w")
      case Waiting
      show ?thesis
      proof (cases "tasks p")
        case Nil
        with Work True Waiting show ?thesis
          using idle exit [of w] by (cases "stop p") (simp_all add: worker_loop_def)
      next
        case (Cons t ts)
        with Work True Waiting show ?thesis
          using claim [of w t ts] by (simp add: worker_loop_def)
      qed
    next
      case (Running t)
      with Work True show ?thesis
        using finish [of w t] by (simp add: worker_loop_def)
    next
      case Exited
      with Work True show ?thesis using idle by (simp add: worker_loop_def)
    qed
  qed
next
  case Stop
  then show ?thesis using begin_stop by simp
qed

lemma queue_ok_ThreadPool: "queue_ok (ThreadPool n)"
  by (simp add: queue_ok_def ThreadPool_def)

lemma queue_ok_fire: "queue_ok p \<Longrightarrow> queue_ok (fire e p)"
  by (cases e p rule: fire_cases) (auto simp: queue_ok_def less_Suc_eq)

lemma queue_ok_run: "queue_ok p \<Longrightarrow> queue_ok (run es p)"
  by (induction es arbitrary: p) (simp_all add: run_Nil run_Cons queue_ok_fire)

lemma queue_step:
  assumes "queue_ok p"
  shows "dequeued e p @ tasks (fire e p) = tasks p @ enqueued e p"
  using assms
  by (cases e p rule: fire_cases)
     (auto simp: queue_ok_def dequeued_def enqueued_def filter_empty_conv filter_id_conv)

lemma claim_order_run:
  "queue_ok p \<Longrightarrow> claim_order es p @ tasks (run es p) = tasks p @ accept_order es p"
proof (induction es arbitrary: p)
  case Nil
  then show ?case by (simp add: run_Nil)
next
  case (Cons e es)
  have "claim_order (e # es) p @ tasks (run (e # es) p)
        = dequeued e p @ (claim_order es (fire e p) @ tasks (run es (fire e p)))"
    by (simp add: run_Cons)
  also have "\<dots> = dequeued e p @ (tasks (fire e p) @ accept_order es (fire e p))"
    using Cons.IH [OF queue_ok_fire [OF Cons.prems]] by simp
  also have "\<dots> = tasks p @ enqueued e p @ accept_order es (fire e p)"
    using queue_step [OF Cons.prems, of e] by simp
  finally show ?case by simp
qed

text \<open>
  Claim C3. From construction on, along every interleaving of submissions, worker turns
  and the start of teardown, the tasks in the order in which workers took them out of the
  queue, followed by the tasks still queued, are the accepted tasks in the order of their
  acceptance. So the claims happen in submission order: a task is claimed only after
  every task accepted before it.
\<close>

theorem claimed_in_submission_order:
  "claim_order es (ThreadPool n) @ tasks (run es (ThreadPool n)) = accept_order es (ThreadPool n)"
  using claim_order_run [OF queue_ok_ThreadPool, of es n] by (simp add: ThreadPool_def)

text \<open>
  The two observations are what they should be: the step in which a waiting worker finds
  the queue non-empty takes out its front task, the one the worker then runs, and an
  accepted submission puts in the one task whose handle the submitter receives.
\<close>

lemma dequeued_claim:
  "queue_ok p \<Longrightarrow> w < length (workers p) \<Longrightarrow> workers p ! w = Waiting \<Longrightarrow> tasks p \<noteq> [] \<Longrightarrow>
   dequeued (Work w) p = [hd (tasks p)] \<and> workers (fire (Work w) p) ! w = Running (hd (tasks p))"
  by (cases "tasks p") (auto simp: queue_ok_def dequeued_def worker_loop_def filter_empty_conv)

lemma enqueued_Submit:
  "queue_ok p \<Longrightarrow> \<not> stop p \<Longrightarrow>
   enqueued (Submit f) p = [Task (length (futures p)) f] \<and>
   fst (Enqueue f p) = Inr (length (futures p))"
  by (auto simp: queue_ok_def enqueued_def Enqueue_def filter_empty_conv)

text \<open>
  For instance, with two workers and two submissions, whichever worker comes first claims
  the task submitted first.
\<close>

lemma claim_order_example:
  "claim_order [Submit (Returns 10), Submit (Returns 20), Work 1, Work 0, Work 1]
     (ThreadPool 2 :: int pool) = [Task 0 (Returns 10), Task 1 (Returns 20)]"
  by (simp add: dequeued_def ThreadPool_def Enqueue_def worker_loop_def numeral_2_eq_2)

text \<open>
  Position by position: the \<open>j\<close>-th task claimed is the \<open>j\<close>-th task accepted.
\<close>

lemma claim_order_nth:
  assumes "j < length (claim_order es (ThreadPool n))"
  shows "claim_order es (ThreadPool n) ! j = accept_order es (ThreadPool n) ! j"
proof -
  have "claim_order es (ThreadPool n) @ tasks (run es (ThreadPool n))
        = accept_order es (ThreadPool n)"
    using claim_order_run [OF queue_ok_ThreadPool, of es n] by (simp add: ThreadPool_def)
  then show ?thesis using assms by (metis nth_append)
qed















text \<open>
  The destructor does return, for every pool and whatever is queued or running: when the
  workers are scheduled one after the other, each for two turns per queued task and two
  more, every join returns.
\<close>

lemma turns_left_Work:
  assumes "stop p" "w < length (workers p)"
  shows "turns_left w (fire (Work w) p) \<le> turns_left w p - 1"
  using assms
  by (cases "workers p ! w"; cases "tasks p") (simp_all add: turns_left_def worker_loop_def)

lemma tasks_Work_le: "length (tasks (fire (Work w) p)) \<le> length (tasks p)"
  by (cases "Work w :: 'a event" p rule: fire_cases) auto

lemma tasks_burst_le: "length (tasks (run (replicate k (Work w)) p)) \<le> length (tasks p)"
proof (induction k arbitrary: p)
  case 0
  show ?case by (simp add: run_Nil)
next
  case (Suc k)
  have "length (tasks (run (replicate k (Work w)) (fire (Work w) p)))
        \<le> length (tasks (fire (Work w) p))" by (rule Suc.IH)
  also have "\<dots> \<le> length (tasks p)" by (rule tasks_Work_le)
  finally show ?case by (simp add: run_Cons)
qed

lemma burst_exits:
  "stop p \<Longrightarrow> w < length (workers p) \<Longrightarrow> turns_left w p \<le> k \<Longrightarrow>
   workers (run (replicate k (Work w)) p) ! w = Exited"
proof (induction k arbitrary: p)
  case 0
  then show ?case
    by (cases "workers p ! w") (simp_all add: turns_left_def run_Nil)
next
  case (Suc k)
  have "turns_left w (fire (Work w) p) \<le> k"
    using turns_left_Work [OF Suc.prems(1,2)] Suc.prems(3) by simp
  moreover have "stop (fire (Work w) p)" using Suc.prems(1) by (rule fire_stop)
  moreover have "w < length (workers (fire (Work w) p))"
    using Suc.prems(2) by (simp only: length_workers_fire)
  ultimately show ?case using Suc.IH [of "fire (Work w) p"] by (simp add: run_Cons)
qed

lemma turns_left_le: "turns_left w p \<le> 2 * length (tasks p) + 2"
  by (cases "workers p ! w") (simp_all add: turns_left_def)

lemma join_workers_round_robin:
  assumes "stop p" "\<forall>w \<in> set ws. w < length (workers p)" "2 * length (tasks p) + 2 \<le> k"
  shows "join_workers ws (map (\<lambda>w. replicate k (Work w)) ws) p
         = Some ([], run (concat (map (\<lambda>w. replicate k (Work w)) ws)) p)"
  using assms
proof (induction ws arbitrary: p)
  case Nil
  then show ?case by (simp add: run_Nil)
next
  case (Cons w ws)
  let ?p1 = "run (replicate k (Work w)) p"
  have "turns_left w p \<le> k" using turns_left_le [of w p] Cons.prems(3) by simp
  with Cons.prems have ex: "workers ?p1 ! w = Exited" by (intro burst_exits) simp_all
  have "stop ?p1" using Cons.prems(1) by (rule run_stop)
  moreover have "\<forall>w \<in> set ws. w < length (workers ?p1)"
    using Cons.prems(2) by (simp add: length_workers_run)
  moreover have "2 * length (tasks ?p1) + 2 \<le> k"
    using tasks_burst_le [of k w p] Cons.prems(3) by simp
  ultimately have "join_workers ws (map (\<lambda>w. replicate k (Work w)) ws) ?p1
      = Some ([], run (concat (map (\<lambda>w. replicate k (Work w)) ws)) ?p1)"
    by (rule Cons.IH)
  with ex show ?case by (simp add: run_append)
qed

lemma destructor_returns:
  "ThreadPool_destructor
     (map (\<lambda>w. replicate (2 * length (tasks p) + 2) (Work w)) [0 ..< length (workers p)]) p
   = Some ([], run (concat (map (\<lambda>w. replicate (2 * length (tasks p) + 2) (Work w))
                       [0 ..< length (workers p)])) (fire Stop p))"
  unfolding ThreadPool_destructor_def
  using join_workers_round_robin [of "fire Stop p" "[0 ..< length (workers p)]"
      "2 * length (tasks p) + 2"]
  by simp

lemma take_two_turns:
  assumes "w < length (workers p)" "workers p ! w = Waiting" "tasks p = t # ts"
  shows "run [Work w, Work w] p =
           p\<lparr>tasks := ts, futures := (futures p)[handle t := Some (callable t)]\<rparr>"
  using assms by (simp add: run_def worker_loop_def list_update_same_conv [THEN iffD2])

lemma drain_queue:
  "w < length (workers p) \<Longrightarrow> workers p ! w = Waiting \<Longrightarrow>
   run (replicate (2 * length (tasks p)) (Work w)) p =
     p\<lparr>tasks := [],
       futures := fold (\<lambda>t fs. fs[handle t := Some (callable t)]) (tasks p) (futures p)\<rparr>"
proof (induction "tasks p" arbitrary: p)
  case Nil
  then show ?case by (simp add: run_Nil)
next
  case (Cons t ts)
  let ?p1 = "p\<lparr>tasks := ts, futures := (futures p)[handle t := Some (callable t)]\<rparr>"
  have two: "run [Work w, Work w] p = ?p1"
    using Cons.prems Cons.hyps(2) by (intro take_two_turns) simp_all
  have rep: "replicate (2 * length (tasks p)) (Work w)
        = [Work w, Work w] @ replicate (2 * length ts) (Work w)"
    using Cons.hyps(2) [symmetric] by simp
  have "run (replicate (2 * length (tasks p)) (Work w)) p
        = run (replicate (2 * length ts) (Work w)) ?p1"
    by (simp only: rep run_append two)
  also have "\<dots> = ?p1\<lparr>tasks := [],
      futures := fold (\<lambda>t fs. fs[handle t := Some (callable t)]) (tasks ?p1) (futures ?p1)\<rparr>"
    using Cons.prems Cons.hyps(1) [of ?p1] by simp
  finally show ?case using Cons.hyps(2) [symmetric] by simp
qed






lemma WaitForTasks_Some:
  "WaitForTasks ess p = Some (ess', p') \<Longrightarrow>
   tasks p' = [] \<and>
   (\<exists>k < length ess. ess' = drop (Suc k) ess \<and> p' = run (concat (take (Suc k) ess)) p)"
proof (induction ess arbitrary: p)
  case Nil
  then show ?case by simp
next
  case (Cons es ess)
  show ?case
  proof (cases "tasks (run es p) = []")
    case True
    with Cons.prems have "ess' = ess" "p' = run es p" by (simp_all add: Let_def)
    with True show ?thesis by (auto intro!: exI [of _ 0])
  next
    case False
    with Cons.prems have "WaitForTasks ess (run es p) = Some (ess', p')"
      by (simp add: Let_def)
    from Cons.IH [OF this] obtain k where
      "tasks p' = []" "k < length ess" "ess' = drop (Suc k) ess"
      "p' = run (concat (take (Suc k) ess)) (run es p)" by blast
    then show ?thesis by (auto intro!: exI [of _ "Suc k"] simp: run_append)
  qed
qed

text \<open>
  Claim C6. If \<open>WaitForTasks\<close> returns, it does so at one of its looks at the queue, in a
  state reached by the steps the other threads took until then, and the queue is empty in
  that state. Nothing more holds: with one worker and one submitted task, \<open>WaitForTasks\<close>
  returns, right after the worker has claimed the task, while the worker is running it and
  its future is not ready.
\<close>

theorem WaitForTasks_weak_barrier:
  "(WaitForTasks ess p = Some (ess', p') \<longrightarrow>
      tasks p' = [] \<and>
      (\<exists>k < length ess. ess' = drop (Suc k) ess \<and> p' = run (concat (take (Suc k) ess)) p)) \<and>
   WaitForTasks [[Work 0]] (run [Submit (Returns 1)] (ThreadPool 1 :: int pool)) =
     Some ([], \<lparr>workers = [Running (Task 0 (Returns 1))], tasks = [], stop = False,
                 futures = [None]\<rparr>)"
  using WaitForTasks_Some [of ess p ess' p']
  by (simp add: ThreadPool_def run_def Enqueue_def worker_loop_def)

theorem WaitForTasks_weak_barrier_witness:
  "WaitForTasks [[], [Work 0], [Work 0]] (run [Submit (Returns 1)] (ThreadPool 1 :: int pool)) =
     Some ([[Work 0]], \<lparr>workers = [Running (Task 0 (Returns 1))], tasks = [], stop = False,
                 futures = [None]\<rparr>) \<and>
   tasks \<lparr>workers = [Running (Task 0 (Returns (1::int)))], tasks = [], stop = False,
                 futures = [None]\<rparr> = []"
  using WaitForTasks_weak_barrier [of "[[], [Work 0], [Work 0]]"
      "run [Submit (Returns 1)] (ThreadPool 1 :: int pool)" "[[Work 0]]"
      "\<lparr>workers = [Running (Task 0 (Returns 1))], tasks = [], stop = False, futures = [None]\<rparr>"]
  by (simp add: ThreadPool_def run_def Enqueue_def worker_loop_def)

text \<open>
  And \<open>WaitForTasks\<close> does return when a waiting worker is given the turns to empty the
  queue.
\<close>

lemma WaitForTasks_returns:
  assumes "w < length (workers p)" "workers p ! w = Waiting"
  shows "WaitForTasks (replicate (2 * length (tasks p)) (Work w) # ess) p =
           Some (ess, run (replicate (2 * length (tasks p)) (Work w)) p)"
  using assms by (simp add: drain_queue)

section \<open>Properties of the process-wide pool\<close>

text \<open>
  Claim C7. Starting with no pool, \<open>InitializeThreadPool n1\<close> creates a pool of \<open>n1\<close>
  threads; whatever the pool does afterwards, a second \<open>InitializeThreadPool n2\<close> leaves
  the pointer and the pool as they are, and the pool still has \<open>n1\<close> threads. With no
  pool, \<open>GetThreadPool\<close> creates and returns a pool of 3 threads.
\<close>

theorem first_initialization_wins:
  "InitializeThreadPool n2 (map_option (run es) (InitializeThreadPool n1 None))
     = Some (run es (ThreadPool n1))
   \<and> GetThreadCount (run es (ThreadPool n1)) = n1
   \<and> GetThreadPool None = (ThreadPool 3, Some (ThreadPool 3))
   \<and> GetThreadCount (ThreadPool 3) = 3"
  by (simp add: InitializeThreadPool_def GetThreadPool_def GetThreadCount_def length_workers_run)
     (simp add: ThreadPool_def)

text \<open>
  Claim C8. With no pool, \<open>ShutdownThreadPool\<close> returns at once, runs no destructor and
  waits for no thread (the schedule is untouched), and the pointer stays null. A call that
  returns leaves the pointer null, so the call after it is that no-op: it joins nothing
  and fails in no way.
\<close>

theorem Shutdown_idempotent:
  "ShutdownThreadPool ess None = Some (ess, None) \<and>
   (ShutdownThreadPool ess g = Some (ess', g') \<longrightarrow>
      g' = None \<and> ShutdownThreadPool ess' g' = Some (ess', g'))"
  by (auto simp: ShutdownThreadPool_def split: option.splits)

theorem Shutdown_idempotent_witness:
  "ShutdownThreadPool [[Work 0], [Work 1]] (Some (ThreadPool 2 :: int pool)) = Some ([], None) \<and>
   ShutdownThreadPool [] (None :: int pool option) = Some ([], None)"
  using Shutdown_idempotent [of "[[Work 0], [Work 1]]" "Some (ThreadPool 2 :: int pool)" "[]" None]
  by (simp add: ShutdownThreadPool_def ThreadPool_destructor_def ThreadPool_def run_def
        worker_loop_def numeral_2_eq_2 upt_rec)

section \<open>Properties of core affinity\<close>




text \<open>
  When the request is refused the function logs a warning and the thread's mask is as
  before; on a build that is not Android the function is empty.
\<close>

lemma ResetCoreAffinity_refused:
  "result \<noteq> 0 \<Longrightarrow>
   ResetCoreAffinity Android num_cores result allowed affinity = (affinity, Some Log_warning)"
  by (simp add: ResetCoreAffinity_def sched_setaffinity_def)

lemma ResetCoreAffinity_stub:
  "ResetCoreAffinity Other_platform num_cores result allowed affinity = (affinity, None)"
  by (simp add: ResetCoreAffinity_def)



section \<open>Properties of aligned allocation\<close>

text \<open>
  The rounded size is a multiple of the alignment for every power of two, and it is the
  requested size rounded up whenever \<open>size + alignment - 1\<close> does not wrap around.
\<close>

lemma and_not_mask_push_drop:
  "(x :: 'a::len word) AND NOT (mask k) = push_bit k (drop_bit k x)"
  by (rule bit_eqI) (auto simp: bit_and_iff bit_not_iff bit_mask_iff bit_push_bit_iff bit_drop_bit_eq)

lemma unat_and_not_mask:
  "unat ((x :: 'a::len word) AND NOT (mask k)) = (unat x div 2 ^ k) * 2 ^ k"
proof -
  have "(unat x div 2 ^ k) * 2 ^ k \<le> unat x" by simp
  also have "unat x < 2 ^ LENGTH('a)" by (rule unsigned_less)
  finally have "take_bit LENGTH('a) ((unat x div 2 ^ k) * 2 ^ k) = (unat x div 2 ^ k) * 2 ^ k"
    by (simp add: take_bit_nat_eq_self_iff)
  moreover have "unat (push_bit k (drop_bit k x))
      = take_bit LENGTH('a) (push_bit k (drop_bit k (unat x)))"
    by (simp only: unsigned_push_bit_eq unat_drop_bit_eq)
  ultimately show ?thesis
    by (simp only: and_not_mask_push_drop push_bit_eq_mult drop_bit_eq_div)
qed

lemma aligned_size_mask:
  "aligned_size sz (2 ^ k) = (sz + mask k) AND NOT (mask k)"
  by (simp add: aligned_size_def mask_eq_decr_exp add_diff_eq)

lemma aligned_size_multiple:
  "2 ^ k dvd unat (aligned_size sz (2 ^ k :: 'a::len word))"
  by (simp add: aligned_size_mask unat_and_not_mask)

lemma aligned_size_rounds_up:
  fixes sz :: "'a::len word"
  assumes "k < LENGTH('a)" and "unat sz + 2 ^ k - 1 < 2 ^ LENGTH('a)"
  shows "unat (aligned_size sz (2 ^ k)) = ((unat sz + 2 ^ k - 1) div 2 ^ k) * 2 ^ k"
proof -
  have m: "unat (mask k :: 'a word) = 2 ^ k - 1"
  proof -
    have "unat (mask k :: 'a word) = nat (mask (min LENGTH('a) k))"
      by (simp only: unat_eq_nat_uint uint_mask_eq)
    also have "\<dots> = mask k" using assms(1) by (simp add: min_def nat_mask_eq)
    finally show ?thesis by (simp only: mask_eq_exp_minus_1)
  qed
  have "unat (sz + mask k) = unat sz + (2 ^ k - 1)"
    using assms(2) by (simp add: unat_word_ariths m take_bit_nat_eq_self_iff unat_add_lem[THEN iffD1])
  then show ?thesis
    by (simp add: aligned_size_mask unat_and_not_mask)
qed

lemma round_up_bounds:
  fixes n :: nat
  assumes "0 < a"
  shows "n \<le> ((n + a - 1) div a) * a \<and> ((n + a - 1) div a) * a < n + a"
proof -
  have "(n + a - 1) mod a < a" using assms by simp
  moreover have "((n + a - 1) div a) * a + (n + a - 1) mod a = n + a - 1" by simp
  ultimately show ?thesis using assms by linarith
qed

lemma aligned_size_zero:
  "k < LENGTH('a) \<Longrightarrow> aligned_size 0 (2 ^ k :: 'a::len word) = 0"
  by (simp add: aligned_size_mask)

text \<open>
  Every size above \<open>SIZE_MAX - alignment + 1\<close> is rounded to 0.
\<close>

lemma aligned_size_wraps:
  fixes sz :: "'a::len word"
  assumes "k < LENGTH('a)" and "2 ^ LENGTH('a) - 2 ^ k < unat sz"
  shows "aligned_size sz (2 ^ k) = 0"
proof -
  have m: "unat (mask k :: 'a word) = 2 ^ k - 1"
  proof -
    have "unat (mask k :: 'a word) = nat (mask (min LENGTH('a) k))"
      by (simp only: unat_eq_nat_uint uint_mask_eq)
    also have "\<dots> = mask k" using assms(1) by (simp add: min_def nat_mask_eq)
    finally show ?thesis by (simp only: mask_eq_exp_minus_1)
  qed
  have lt: "unat sz < 2 ^ LENGTH('a)" by (rule unsigned_less)
  have pk: "(2::nat) ^ k < 2 ^ LENGTH('a)" using assms(1) by simp
  have "unat (sz + mask k) = (unat sz + (2 ^ k - 1)) mod 2 ^ LENGTH('a)"
    by (simp only: unat_word_ariths m)
  also have "\<dots> = unat sz + (2 ^ k - 1) - 2 ^ LENGTH('a)"
  proof -
    have "2 ^ LENGTH('a) \<le> unat sz + (2 ^ k - 1)" using assms(2) pk by linarith
    moreover have "unat sz + (2 ^ k - 1) < 2 * 2 ^ LENGTH('a)" using lt pk by linarith
    ultimately show ?thesis by (metis le_mod_geq mod_less less_diff_conv2 mult_2)
  qed
  also have "\<dots> < 2 ^ k" using assms(2) lt pk by linarith
  finally have "unat (sz + mask k) div 2 ^ k = 0" by simp
  then have "unat (aligned_size sz (2 ^ k)) = 0"
    by (simp add: aligned_size_mask unat_and_not_mask)
  then show ?thesis by (simp add: unat_eq_0)
qed

text \<open>
  Claim C10 at a size where the sum wraps around: for a request of \<open>SIZE_MAX\<close> bytes at
  the default alignment 64 (on a 64-bit \<open>size_t\<close>) the rounded size is 0, not a multiple
  of 64 that is at least the request. An allocator that grants what it is asked for is
  asked for 0 bytes, and \<open>AlignedAlloc\<close> returns its pointer as a success.
\<close>

theorem AlignedAlloc_size_wraps:
  "aligned_size (- 1 :: 64 word) 64 = 0 \<and>
   AlignedAlloc (\<lambda>alignment n. Some (alignment, n)) (- 1 :: 64 word) 64 = Inr (64, 0)"
  by (simp add: AlignedAlloc_def aligned_size_def)

end
